theory Spec2Isabelle
  imports Main "HOL-Library.Word"
begin

section \<open>The capture node: data\<close>

text \<open>
  The embedding covers the capture node's controller (\<^verbatim>\<open>dataset_gen/pi/src/main.cpp\<close>)
  and the camera source (\<^verbatim>\<open>dataset_creation/pi/src/camera_handler.cpp\<close>).
  Everything a function does beyond returning is written into an explicit state, the
  record \<open>node\<close>: the file-scope variables of \<^verbatim>\<open>main.cpp\<close>, the members of
  \<^verbatim>\<open>camera_handler_t\<close>, and a \<open>trace\<close> of the calls made to the outside (logger, camera
  driver, timer, semaphore, encoder) in the order they are made.
\<close>

type_synonym byte = "8 word"

datatype level_t = DEBUG | INFO | ERROR

text \<open>One entry of the trace: a call that leaves the program, with its arguments.\<close>

datatype action =
    Log level_t string
  | CameraQueueRequest nat
  | Memcpy nat nat nat
  | Enqueue nat
  | SemPost
  | RequestReuse nat
  | TimerSettime int int int
  | EncodeFrame nat

text \<open>
  \<^item> \<open>Log l m\<close>: \<^verbatim>\<open>logger->log(l, __FILE__, __LINE__, m)\<close>;
  \<^item> \<open>CameraQueueRequest c\<close>: \<^verbatim>\<open>camera_->queueRequest(r)\<close> for the request \<open>r\<close> with cookie \<open>c\<close>;
  \<^item> \<open>Memcpy dst src n\<close>: \<^verbatim>\<open>memcpy\<close> of \<open>n\<close> bytes from mapped buffer \<open>src\<close> to byte
    offset \<open>dst\<close> of the frame arena;
  \<^item> \<open>Enqueue p\<close>: a call \<^verbatim>\<open>frame_queue.enqueue(p)\<close> that returned true;
  \<^item> \<open>SemPost\<close>: \<^verbatim>\<open>sem_post\<close> on the loop-control semaphore;
  \<^item> \<open>RequestReuse c\<close>: \<^verbatim>\<open>request->reuse(ReuseBuffers)\<close> on the request with cookie \<open>c\<close>;
  \<^item> \<open>TimerSettime flags sec nsec\<close>: \<^verbatim>\<open>timer_settime(timerid, flags, &its, NULL)\<close> with
    \<^verbatim>\<open>its.it_value = {sec, nsec}\<close> and a zero interval;
  \<^item> \<open>EncodeFrame p\<close>: \<^verbatim>\<open>encoder.encode_frame(p, stream_pkt, *conn)\<close>.
\<close>

datatype request_status = RequestPending | RequestComplete | RequestCancelled

record request =
  cookie :: nat
  status :: request_status

text \<open>
  Modelled from the spec: \<^verbatim>\<open>lock_free_queue_t\<close> (its header and source are not among the
  files). The spec gives a bounded FIFO of pointers with a capacity \<open>Q\<close>: \<open>enqueue\<close> returns
  false when the queue is full, that is when it holds \<open>Q\<close> pointers, and \<open>dequeue\<close> returns
  null when it is empty. A pointer into the frame arena is its byte offset. How the
  constructor arrives at \<open>Q\<close> from its argument is not given, so the capacity of a queue is
  a parameter wherever one is made.
\<close>

record lock_free_queue_t =
  capacity :: nat
  items :: "nat list"

definition enqueue :: "lock_free_queue_t \<Rightarrow> nat \<Rightarrow> bool \<times> lock_free_queue_t" where
  "enqueue q p =
     (if length (items q) < capacity q then (True, q\<lparr>items := items q @ [p]\<rparr>)
      else (False, q))"

definition dequeue :: "lock_free_queue_t \<Rightarrow> nat option \<times> lock_free_queue_t" where
  "dequeue q =
     (case items q of
        [] \<Rightarrow> (None, q)
      | p # ps \<Rightarrow> (Some p, q\<lparr>items := ps\<rparr>))"

text \<open>
  The state. \<open>running\<close> and \<open>timestamp\<close> are the file-scope variables of
  \<^verbatim>\<open>main.cpp\<close>; \<open>timestamp\<close> is an \<^verbatim>\<open>int64_t\<close>, kept as an \<open>int\<close> within the 64-bit range.
  \<open>loop_ctl_sem\<close> is the value of the one semaphore that \<^verbatim>\<open>main.cpp\<close> calls
  \<^verbatim>\<open>loop_ctl_sem\<close> and the camera handler, which holds a reference to it, calls
  \<^verbatim>\<open>queue_counter\<close>; \<open>frame_queue\<close> is shared by reference in the same way. The fields from
  \<open>frame_buffers\<close> to \<open>frame_bytes_buffer\<close> are the members of \<^verbatim>\<open>camera_handler_t\<close>
  (named there with a trailing underscore): \<open>mmap_buffers\<close> holds the
  contents of each mapped DMA buffer and \<open>frame_bytes_buffer\<close> the contents of the frame
  arena (\<^verbatim>\<open>frame_bytes_ * frame_buffers_\<close> bytes).
\<close>

record node =
  running :: int
  timestamp :: int
  loop_ctl_sem :: nat
  frame_queue :: lock_free_queue_t
  frame_buffers :: nat
  frame_bytes :: nat
  next_req_idx :: nat
  frame_bytes_offset :: nat
  requests :: "request list"
  mmap_buffers :: "byte list list"
  frame_bytes_buffer :: "byte list"
  trace :: "action list"

text \<open>
  What a call can end in. \<open>Throws m s\<close> is a \<^verbatim>\<open>std::runtime_error(m)\<close> leaving the
  function in state \<open>s\<close>; \<open>Undefined\<close> is a step C++ gives no meaning to (an index past
  the end of a vector, a remainder by zero, a copy outside a buffer).
\<close>

datatype outcome = Returns node | Throws string node | Undefined

definition log :: "level_t \<Rightarrow> string \<Rightarrow> node \<Rightarrow> node" where
  "log l m s = s\<lparr>trace := trace s @ [Log l m]\<rparr>"

definition sem_post :: "node \<Rightarrow> node" where
  "sem_post s = s\<lparr>loop_ctl_sem := loop_ctl_sem s + 1, trace := trace s @ [SemPost]\<rparr>"

text \<open>\<^verbatim>\<open>sem_wait\<close> returns only once the value is positive; \<open>None\<close> is the blocked call.\<close>

definition sem_wait :: "node \<Rightarrow> node option" where
  "sem_wait s =
     (if loop_ctl_sem s = 0 then None else Some (s\<lparr>loop_ctl_sem := loop_ctl_sem s - 1\<rparr>))"

subsection \<open>Constants and C arithmetic\<close>

definition SIGINT :: int where "SIGINT = 2"
definition SIGUSR1 :: int where "SIGUSR1 = 10"
definition SIGTERM :: int where "SIGTERM = 15"
definition SIGIO :: int where "SIGIO = 29"
definition EINTR :: int where "EINTR = 4"

definition ns_per_s :: int where "ns_per_s = 1000000000"

text \<open>C++ integer division truncates towards zero, and the remainder has the dividend's sign.\<close>

definition c_div :: "int \<Rightarrow> int \<Rightarrow> int" where
  "c_div a b = sgn a * sgn b * (\<bar>a\<bar> div \<bar>b\<bar>)"

definition c_mod :: "int \<Rightarrow> int \<Rightarrow> int" where
  "c_mod a b = a - b * c_div a b"

text \<open>
  A 64-bit two's complement value: \<open>wrap64\<close> is the identity inside
  \<open>-2^63 .. 2^63 - 1\<close>. (Signed overflow is undefined in C++; the claims below are stated
  where it does not happen.)
\<close>

definition wrap64 :: "int \<Rightarrow> int" where
  "wrap64 x = (x + 2 ^ 63) mod 2 ^ 64 - 2 ^ 63"

text \<open>\<^verbatim>\<open>memcpy(&timestamp, buf, sizeof(timestamp))\<close> on the little-endian host.\<close>

fun le_bytes :: "byte list \<Rightarrow> int" where
  "le_bytes [] = 0"
| "le_bytes (b # bs) = uint b + 256 * le_bytes bs"

definition int64_of_bytes :: "byte list \<Rightarrow> int" where
  "int64_of_bytes bs = wrap64 (le_bytes (take 8 bs))"

text \<open>
  \<^verbatim>\<open>strncmp(s1, s2, n)\<close>: compares at most \<open>n\<close> characters as unsigned chars and stops
  after a NUL. The end of a list stands for the terminating NUL of a C string.
\<close>

fun strncmp :: "byte list \<Rightarrow> byte list \<Rightarrow> nat \<Rightarrow> int" where
  "strncmp _ _ 0 = 0"
| "strncmp [] [] (Suc n) = 0"
| "strncmp [] (b # bs) (Suc n) = - uint b"
| "strncmp (a # as) [] (Suc n) = uint a"
| "strncmp (a # as) (b # bs) (Suc n) =
     (if a \<noteq> b then uint a - uint b
      else if a = 0 then 0
      else strncmp as bs n)"

definition STOP :: "byte list" where
  "STOP = [0x53, 0x54, 0x4F, 0x50]"

text \<open>
  \<^verbatim>\<open>recvfrom(fd, buf, len, 0, NULL, NULL)\<close> on the non-blocking datagram socket. \<open>pending\<close>
  is the datagram at the head of the socket's receive queue, if any. The call takes one
  whole datagram off the queue, stores its first \<open>len\<close> bytes and returns how many it
  stored (the rest of a longer datagram is discarded); with nothing to read, or on an
  error, it returns -1 and stores nothing.
\<close>

definition recvfrom :: "byte list option \<Rightarrow> nat \<Rightarrow> int \<times> byte list" where
  "recvfrom pending len =
     (case pending of
        None \<Rightarrow> (- 1, [])
      | Some d \<Rightarrow> (int (min (length d) len), take len d))"

section \<open>The controller: \<^verbatim>\<open>main.cpp\<close>\<close>

subsection \<open>Signal handlers\<close>

definition io_signal_handler :: "int \<Rightarrow> byte list option \<Rightarrow> node \<Rightarrow> node" where
  "io_signal_handler signo pending s =
     (if signo \<noteq> SIGIO then s
      else
        let (bytes_recvd, buf) = recvfrom pending 8 in
        if bytes_recvd = 4 \<and> strncmp buf STOP 4 = 0 then
          (log INFO ''Received STOP signal, shutting down...'' s)\<lparr>timestamp := 0\<rparr>
        else if bytes_recvd = 8 then
          sem_post (log INFO ''Received timestamp'' (s\<lparr>timestamp := int64_of_bytes buf\<rparr>))
        else log DEBUG ''Received unexpected message size'' s)"

definition exit_signal_handler :: "int \<Rightarrow> node \<Rightarrow> node" where
  "exit_signal_handler signo s =
     (if signo \<noteq> SIGINT \<and> signo \<noteq> SIGTERM then s
      else sem_post (s\<lparr>running := 0\<rparr>))"

text \<open>
  \<^verbatim>\<open>arm_timer\<close>. The second argument of \<^verbatim>\<open>timer_settime\<close> is the literal 0 of the
  source and is recorded with the call.
\<close>

definition arm_timer :: "node \<Rightarrow> node" where
  "arm_timer s =
     (if timestamp s = 0 then s
      else s\<lparr>trace := trace s @
             [TimerSettime 0 (c_div (timestamp s) ns_per_s) (c_mod (timestamp s) ns_per_s)]\<rparr>)"

section \<open>The camera source: \<^verbatim>\<open>camera_handler.cpp\<close>\<close>

text \<open>
  \<^verbatim>\<open>queue_request\<close>. \<open>ret\<close> is what \<^verbatim>\<open>camera_->queueRequest\<close> returns in this call (the
  driver is outside the program). The class declaration is not among the files, so the
  type of \<^verbatim>\<open>frame_buffers_\<close> is not known; the comparison is taken over the integers, which
  is what both a signed and an unsigned member give when \<^verbatim>\<open>frame_buffers_\<close> is at least 2.
\<close>

definition queue_request :: "int \<Rightarrow> node \<Rightarrow> outcome" where
  "queue_request ret s =
     (let enqueued_buffers = int (loop_ctl_sem s) in
      if enqueued_buffers > int (frame_buffers s) - 2 then
        Throws ''Buffer is not ready for requeuing''
          (log ERROR ''Buffer is not ready for requeuing'' s)
      else if length (requests s) \<le> next_req_idx s then Undefined
      else
        let s1 = s\<lparr>trace := trace s @
                   [CameraQueueRequest (cookie (requests s ! next_req_idx s))]\<rparr> in
        if ret < 0 then
          Throws ''Failed to queue request'' (log ERROR ''Failed to queue request'' s1)
        else
          Returns (s1\<lparr>next_req_idx := (next_req_idx s1 + 1) mod length (requests s1)\<rparr>))"

text \<open>
  The retry loop of \<^verbatim>\<open>request_complete\<close>:
  \<^verbatim>\<open>do { enqueued = frame_queue.enqueue(frame_offset); } while (!enqueued);\<close>
  It does not return while the queue stays full: \<open>None\<close>.
\<close>

partial_function (option) enqueue_retry :: "lock_free_queue_t \<Rightarrow> nat \<Rightarrow> lock_free_queue_t option" where
  "enqueue_retry q p =
     (case enqueue q p of (enqueued, q') \<Rightarrow> if enqueued then Some q' else enqueue_retry q' p)"

definition request_complete :: "request \<Rightarrow> node \<Rightarrow> outcome option" where
  "request_complete rq s =
     (if status rq = RequestCancelled then Some (Returns s)
      else
        let s1 = log INFO ''Request completed'' s in
        if length (mmap_buffers s1) \<le> cookie rq then Some Undefined
        else
          let data = mmap_buffers s1 ! cookie rq;
              frame_offset = frame_bytes s1 * frame_bytes_offset s1
          in
          if length data < frame_bytes s1
             \<or> length (frame_bytes_buffer s1) < frame_offset + frame_bytes s1
             \<or> frame_buffers s1 = 0
          then Some Undefined
          else
            let s2 = s1\<lparr>frame_bytes_buffer :=
                         take frame_offset (frame_bytes_buffer s1)
                         @ take (frame_bytes s1) data
                         @ drop (frame_offset + frame_bytes s1) (frame_bytes_buffer s1),
                       trace := trace s1 @ [Memcpy frame_offset (cookie rq) (frame_bytes s1)]\<rparr>;
                s3 = s2\<lparr>frame_bytes_offset :=
                         (frame_bytes_offset s2 + 1) mod frame_buffers s2\<rparr>
            in
            case enqueue_retry (frame_queue s3) frame_offset of
              None \<Rightarrow> None
            | Some q \<Rightarrow>
                let s4 = s3\<lparr>frame_queue := q, trace := trace s3 @ [Enqueue frame_offset]\<rparr>;
                    s5 = sem_post s4
                in Some (Returns (s5\<lparr>trace := trace s5 @ [RequestReuse (cookie rq)]\<rparr>)))"

section \<open>The controller, continued\<close>

text \<open>
  \<^verbatim>\<open>capture_signal_handler\<close>: there is no \<^verbatim>\<open>try\<close> in it, so what \<^verbatim>\<open>queue_request\<close>
  throws leaves the handler.
\<close>

definition capture_signal_handler :: "int \<Rightarrow> int \<Rightarrow> node \<Rightarrow> outcome" where
  "capture_signal_handler signo ret s =
     (if signo \<noteq> SIGUSR1 \<or> running s = 0 then Returns s
      else
        case queue_request ret s of
          Returns s1 \<Rightarrow> Returns (log INFO ''Capture request queued'' s1)
        | Throws m s1 \<Rightarrow> Throws m s1
        | Undefined \<Rightarrow> Undefined)"

subsection \<open>The main loop\<close>

text \<open>
  \<^verbatim>\<open>int64_t frame_duration = ns_per_s / config.fps;\<close> (the configuration record is not among
  the files; \<^verbatim>\<open>fps\<close> is taken as an integer, and it must not be 0).
\<close>

definition frame_duration :: "int \<Rightarrow> int" where
  "frame_duration fps = c_div ns_per_s fps"

text \<open>
  One iteration of \<^verbatim>\<open>while (running)\<close>, with the datagram socket bound
  (\<^verbatim>\<open>conn->udpfd >= 0\<close>), in two halves around the call that blocks:
  \<open>loop_top\<close> is lines 94 to 97 (advance the timestamp if it is set, arm the timer),
  \<open>loop_bottom\<close> is lines 102 to 111 (\<^verbatim>\<open>sem_wait\<close> returns, dequeue, encode or continue).
\<close>

definition loop_top :: "int \<Rightarrow> node \<Rightarrow> node" where
  "loop_top fd s =
     arm_timer (if timestamp s \<noteq> 0 then s\<lparr>timestamp := wrap64 (timestamp s + fd)\<rparr> else s)"

definition loop_bottom :: "node \<Rightarrow> node option" where
  "loop_bottom s =
     (case sem_wait s of
        None \<Rightarrow> None
      | Some s1 \<Rightarrow>
          (case dequeue (frame_queue s1) of
             (None, q) \<Rightarrow> Some (s1\<lparr>frame_queue := q\<rparr>)
           | (Some frame, q) \<Rightarrow>
               Some (s1\<lparr>frame_queue := q, trace := trace s1 @ [EncodeFrame frame]\<rparr>)))"

text \<open>
  The node as a transition system. Between two events the main thread is blocked in
  \<^verbatim>\<open>sem_wait\<close>; an event is one handler or callback run to its end, or \<open>Wake\<close>: \<^verbatim>\<open>sem_wait\<close>
  returns and the main thread runs to its next \<^verbatim>\<open>sem_wait\<close> or leaves the loop.
  \<^item> \<open>IoSignal d\<close>: \<^verbatim>\<open>io_signal_handler(SIGIO)\<close> with \<open>d\<close> pending on the socket;
  \<^item> \<open>TimerSignal ret\<close>: \<^verbatim>\<open>capture_signal_handler(SIGUSR1)\<close>, the driver answering \<open>ret\<close>;
  \<^item> \<open>ExitSignal signo\<close>: \<^verbatim>\<open>exit_signal_handler(signo)\<close>;
  \<^item> \<open>RequestCompleted rq\<close>: the camera calls \<^verbatim>\<open>request_complete(rq)\<close>.
\<close>

datatype event =
    IoSignal "byte list option"
  | TimerSignal int
  | ExitSignal int
  | RequestCompleted request
  | Wake

datatype progress = Blocked node | Exited node | Aborted string node | Broken

definition step :: "int \<Rightarrow> event \<Rightarrow> node \<Rightarrow> progress option" where
  "step fd e s =
     (case e of
        IoSignal d \<Rightarrow> Some (Blocked (io_signal_handler SIGIO d s))
      | TimerSignal ret \<Rightarrow>
          (case capture_signal_handler SIGUSR1 ret s of
             Returns s1 \<Rightarrow> Some (Blocked s1)
           | Throws m s1 \<Rightarrow> Some (Aborted m s1)
           | Undefined \<Rightarrow> Some Broken)
      | ExitSignal signo \<Rightarrow> Some (Blocked (exit_signal_handler signo s))
      | RequestCompleted rq \<Rightarrow>
          (case request_complete rq s of
             None \<Rightarrow> None
           | Some (Returns s1) \<Rightarrow> Some (Blocked s1)
           | Some (Throws m s1) \<Rightarrow> Some (Aborted m s1)
           | Some Undefined \<Rightarrow> Some Broken)
      | Wake \<Rightarrow>
          (case loop_bottom s of
             None \<Rightarrow> Some (Blocked s)
           | Some s1 \<Rightarrow>
               if running s1 = 0 then Some (Exited s1)
               else Some (Blocked (loop_top fd s1))))"

fun run :: "int \<Rightarrow> event list \<Rightarrow> node \<Rightarrow> progress option" where
  "run fd [] s = Some (Blocked s)"
| "run fd (e # es) s =
     (case step fd e s of
        Some (Blocked s1) \<Rightarrow> run fd es s1
      | r \<Rightarrow> r)"

text \<open>The \<^verbatim>\<open>timer_settime\<close> calls of a trace, each as the nanosecond value it arms.\<close>

fun arms :: "action list \<Rightarrow> int list" where
  "arms [] = []"
| "arms (TimerSettime flags sec nsec # as) = (sec * ns_per_s + nsec) # arms as"
| "arms (_ # as) = arms as"

text \<open>The state a run has reached, unless it broke down.\<close>

fun progress_node :: "progress \<Rightarrow> node option" where
  "progress_node (Blocked s) = Some s"
| "progress_node (Exited s) = Some s"
| "progress_node (Aborted m s) = Some s"
| "progress_node Broken = None"

definition run_arms :: "int \<Rightarrow> event list \<Rightarrow> node \<Rightarrow> int list option" where
  "run_arms fd evs s =
     (case run fd evs s of
        None \<Rightarrow> None
      | Some r \<Rightarrow> map_option (\<lambda>s'. arms (trace s')) (progress_node r))"

text \<open>
  Events that bring no base timestamp: every datagram is shorter than 8 bytes (a longer
  one is read as a timestamp). \<open>no_start_or_stop\<close> excludes the \<open>STOP\<close> datagram as well.
\<close>

fun no_start :: "event \<Rightarrow> bool" where
  "no_start (IoSignal (Some d)) = (length d < 8)"
| "no_start _ = True"

fun no_start_or_stop :: "event \<Rightarrow> bool" where
  "no_start_or_stop (IoSignal (Some d)) = (length d < 8 \<and> d \<noteq> STOP)"
| "no_start_or_stop _ = True"

subsection \<open>The stream sink\<close>

text \<open>
  \<^verbatim>\<open>stream_pkt\<close> works on the connection object and on what the socket does, neither of
  which is part of \<open>node\<close>. The connection is its stream descriptor \<open>tcpfd\<close>, together
  with what has been observed of it: \<open>sent\<close>, the bytes the socket has accepted so far,
  \<open>connects\<close>, how often \<^verbatim>\<open>conn_tcp\<close> was called, and the log entries written.
\<close>

record connection =
  tcpfd :: int
  sent :: "byte list"
  connects :: nat
  stream_log :: "(level_t \<times> string) list"

text \<open>
  Modelled from the spec: \<^verbatim>\<open>connection::conn_tcp\<close> (the class is not among the files)
  opens a stream socket and connects it to the server. \<open>r\<close> is what that attempt
  yields: a descriptor, which the connection then holds, or a negative error code, which
  is returned.
\<close>

definition conn_tcp :: "int \<Rightarrow> connection \<Rightarrow> int \<times> connection" where
  "conn_tcp r c =
     (if r < 0 then (r, c\<lparr>connects := connects c + 1\<rparr>)
      else (0, c\<lparr>tcpfd := r, connects := connects c + 1\<rparr>))"

text \<open>
  What one call of \<^verbatim>\<open>write(fd, buf, count)\<close> does: \<open>Written n\<close>, the socket takes \<open>n\<close>
  bytes, of which \<^verbatim>\<open>write\<close> uses and reports at most \<open>count\<close>; or \<open>WriteError e\<close>, it
  returns -1 with \<^verbatim>\<open>errno = e\<close>. The calls of one \<^verbatim>\<open>stream_pkt\<close> are answered from a list
  in order; \<open>None\<close> is the loop still running when the list is used up.
\<close>

datatype write_result = Written nat | WriteError int

fun stream_loop ::
  "write_result list \<Rightarrow> int \<Rightarrow> byte list \<Rightarrow> nat \<Rightarrow> connection \<Rightarrow> (int \<times> connection) option"
where
  "stream_loop ws r data total_bytes_written c =
     (if total_bytes_written < length data then
        (case (if tcpfd c < 0 then conn_tcp r c else (0, c)) of
           (ret, c1) \<Rightarrow>
             if ret < 0 then Some (ret, c1)
             else
               (case ws of
                  [] \<Rightarrow> None
                | WriteError e # ws' \<Rightarrow>
                    if e = EINTR then stream_loop ws' r data total_bytes_written c1
                    else Some (- 1, c1\<lparr>stream_log := stream_log c1
                                         @ [(ERROR, ''Error transmitting frame'')]\<rparr>)
                | Written n # ws' \<Rightarrow>
                    (let result = min n (length data - total_bytes_written) in
                     stream_loop ws' r data (total_bytes_written + result)
                       (c1\<lparr>sent := sent c1 @ take result (drop total_bytes_written data)\<rparr>))))
      else Some (0, c\<lparr>stream_log := stream_log c @ [(INFO, ''Transmitted frame'')]\<rparr>))"

declare stream_loop.simps [simp del]

definition stream_pkt ::
  "write_result list \<Rightarrow> int \<Rightarrow> byte list \<Rightarrow> connection \<Rightarrow> (int \<times> connection) option" where
  "stream_pkt ws r data c = stream_loop ws r data 0 c"

text \<open>The bytes a list of answers takes in all, and the answers after which the loop goes on.\<close>

fun accepted :: "write_result list \<Rightarrow> nat" where
  "accepted [] = 0"
| "accepted (Written n # ws) = n + accepted ws"
| "accepted (WriteError e # ws) = accepted ws"

fun retried :: "write_result \<Rightarrow> bool" where
  "retried (Written n) = True"
| "retried (WriteError e) = (e = EINTR)"

subsection \<open>Reading outcomes and traces\<close>

fun outcome_node :: "outcome \<Rightarrow> node option" where
  "outcome_node (Returns s) = Some s"
| "outcome_node (Throws m s) = Some s"
| "outcome_node Undefined = None"


text \<open>
  What the constructor of \<^verbatim>\<open>camera_handler_t\<close> establishes and the two methods keep: there
  is a request to submit next, every request's cookie indexes a mapped buffer, every mapped
  buffer holds a whole frame, the arena holds \<^verbatim>\<open>frame_buffers_\<close> frames and the write index
  is inside it.
\<close>

definition camera_ready :: "node \<Rightarrow> bool" where
  "camera_ready s =
     (next_req_idx s < length (requests s)
      \<and> list_all (\<lambda>r. cookie r < length (mmap_buffers s)) (requests s)
      \<and> list_all (\<lambda>b. frame_bytes s \<le> length b) (mmap_buffers s)
      \<and> length (frame_bytes_buffer s) = frame_bytes s * frame_buffers s
      \<and> frame_bytes_offset s < frame_buffers s)"

text \<open>The state a completed request leaves, written out.\<close>

definition completed :: "request \<Rightarrow> node \<Rightarrow> node" where
  "completed rq s =
     s\<lparr>frame_bytes_buffer :=
         take (frame_bytes s * frame_bytes_offset s) (frame_bytes_buffer s)
         @ take (frame_bytes s) (mmap_buffers s ! cookie rq)
         @ drop (frame_bytes s * frame_bytes_offset s + frame_bytes s) (frame_bytes_buffer s),
       frame_bytes_offset := (frame_bytes_offset s + 1) mod frame_buffers s,
       frame_queue := (frame_queue s)\<lparr>items := items (frame_queue s)
                                             @ [frame_bytes s * frame_bytes_offset s]\<rparr>,
       loop_ctl_sem := loop_ctl_sem s + 1,
       trace := trace s @
         [Log INFO ''Request completed'',
          Memcpy (frame_bytes s * frame_bytes_offset s) (cookie rq) (frame_bytes s),
          Enqueue (frame_bytes s * frame_bytes_offset s),
          SemPost,
          RequestReuse (cookie rq)]\<rparr>"


subsection \<open>Startup: the signal dispositions\<close>

text \<open>
  \<^verbatim>\<open>init_signals\<close>. A \<^verbatim>\<open>struct sigaction\<close> declared without an initialiser has
  indeterminate fields: \<open>None\<close>. The function is given as the table of dispositions it
  installs when its four \<^verbatim>\<open>sigaction\<close> calls succeed. The three assignments after the
  declaration of \<^verbatim>\<open>exit_action\<close> are written to \<^verbatim>\<open>io_action\<close> in the source.
\<close>

datatype handler = Capture_signal_handler | Io_signal_handler | Exit_signal_handler

datatype sa_flag = SA_SIGINFO | SA_RESTART

record sigaction_t =
  sa_sigaction :: "handler option"
  sa_flags :: "sa_flag set option"
  sa_mask :: "int set option"

definition indeterminate :: sigaction_t where
  "indeterminate = \<lparr>sa_sigaction = None, sa_flags = None, sa_mask = None\<rparr>"

definition init_signals :: "int \<Rightarrow> sigaction_t option" where
  "init_signals =
     (let action = indeterminate;
          action = action\<lparr>sa_sigaction := Some Capture_signal_handler\<rparr>;
          action = action\<lparr>sa_flags := Some {SA_SIGINFO, SA_RESTART}\<rparr>;
          action = action\<lparr>sa_mask := Some {}\<rparr>;
          io_action = indeterminate;
          io_action = io_action\<lparr>sa_sigaction := Some Io_signal_handler\<rparr>;
          io_action = io_action\<lparr>sa_flags := Some {SA_SIGINFO, SA_RESTART}\<rparr>;
          io_action = io_action\<lparr>sa_mask := Some {}\<rparr>;
          exit_action = indeterminate;
          io_action = io_action\<lparr>sa_sigaction := Some Exit_signal_handler\<rparr>;
          io_action = io_action\<lparr>sa_flags := Some {SA_SIGINFO, SA_RESTART}\<rparr>;
          io_action = io_action\<lparr>sa_mask := Some {}\<rparr>
      in [SIGUSR1 \<mapsto> action, SIGIO \<mapsto> io_action,
          SIGINT \<mapsto> exit_action, SIGTERM \<mapsto> exit_action])"

text \<open>Running the handler a disposition names, for a signal \<open>signo\<close>.\<close>

definition run_handler :: "handler \<Rightarrow> int \<Rightarrow> byte list option \<Rightarrow> int \<Rightarrow> node \<Rightarrow> outcome" where
  "run_handler h signo pending ret s =
     (case h of
        Capture_signal_handler \<Rightarrow> capture_signal_handler signo ret s
      | Io_signal_handler \<Rightarrow> Returns (io_signal_handler signo pending s)
      | Exit_signal_handler \<Rightarrow> Returns (exit_signal_handler signo s))"

text \<open>
  The state in which \<^verbatim>\<open>main\<close> first blocks in its loop, for \<open>N\<close> frame buffers, \<open>M\<close> DMA
  buffers, a frame queue of capacity \<open>Q\<close> and frames of \<open>fb\<close> bytes: semaphore 0 (line 61),
  the empty queue that line 67 makes (\<open>Q\<close> is what the constructor makes of its argument
  \<^verbatim>\<open>config.dma_buffers\<close>), the camera handler as its constructor leaves it (one request per
  buffer with cookies \<open>0, 1, ...\<close>, both indices 0), \<open>running = 1\<close> (line 85) and no base
  timestamp. Buffer contents are zero bytes here, and the trace starts empty: the calls
  made during startup are left out.
\<close>

definition startup :: "nat \<Rightarrow> nat \<Rightarrow> nat \<Rightarrow> nat \<Rightarrow> node" where
  "startup N M Q fb =
     \<lparr>running = 1, timestamp = 0, loop_ctl_sem = 0,
      frame_queue = \<lparr>capacity = Q, items = []\<rparr>,
      frame_buffers = N, frame_bytes = fb, next_req_idx = 0, frame_bytes_offset = 0,
      requests = map (\<lambda>i. \<lparr>cookie = i, status = RequestPending\<rparr>) [0..<M],
      mmap_buffers = replicate M (replicate fb 0),
      frame_bytes_buffer = replicate (N * fb) 0,
      trace = []\<rparr>"

text \<open>
  A node some way into a recording, for trying the functions on: as \<open>startup 4 3 4 6\<close>, with
  three mapped buffers of different contents and the write index at slot 1.
\<close>

definition recording_node :: node where
  "recording_node =
     (startup 4 3 4 6)\<lparr>mmap_buffers := [[1, 2, 3, 4, 5, 6], [7, 8, 9, 10, 11, 12],
                                        [13, 14, 15, 16, 17, 18]],
                      frame_bytes_offset := 1\<rparr>"

text \<open>
  The same node with a recording under way: a base timestamp of one second, the timer
  armed for it, and two captured frames (slots 0 and 1) waiting in the queue.
\<close>

definition stopping_node :: node where
  "stopping_node =
     recording_node\<lparr>timestamp := 1000000000, loop_ctl_sem := 2,
                     frame_queue := \<lparr>capacity = 4, items = [0, 6]\<rparr>,
                     frame_bytes_offset := 2,
                     trace := [TimerSettime 0 1 0]\<rparr>"

section \<open>Properties\<close>

subsection \<open>Helper facts\<close>

lemma uint_eq_byte: "(uint (a::byte) = uint b) = (a = b)"
  by (simp add: word_uint_eq_iff)

lemma strncmp_eq_iff:
  "length a = n \<Longrightarrow> length b = n \<Longrightarrow> 0 \<notin> set b \<Longrightarrow> (strncmp a b n = 0) = (a = b)"
proof (induction n arbitrary: a b)
  case 0
  then show ?case by simp
next
  case (Suc n)
  then obtain x xs y ys where ab: "a = x # xs" "b = y # ys"
    by (auto simp: length_Suc_conv)
  with Suc.prems have len: "length xs = n" "length ys = n" "0 \<notin> set ys" "y \<noteq> 0"
    by auto
  show ?case
    using Suc.IH [OF len(1) len(2) len(3)] len(4)
    by (auto simp: ab uint_eq_byte)
qed

lemma strncmp_STOP:
  assumes "length d = 4"
  shows "(strncmp d STOP 4 = 0) = (d = STOP)"
  using assms by (intro strncmp_eq_iff) (simp_all add: STOP_def)


subsection \<open>The datagram handler\<close>

lemma io_signal_handler_short:
  assumes "length d < 8" "d \<noteq> STOP"
  shows "io_signal_handler SIGIO (Some d) s = log DEBUG ''Received unexpected message size'' s"
proof (cases "length d = 4")
  case True
  with assms(2) have "strncmp d STOP 4 \<noteq> 0"
    by (simp add: strncmp_STOP)
  moreover from True have "take 8 d = d"
    by simp
  ultimately show ?thesis
    using True by (simp add: io_signal_handler_def recvfrom_def)
next
  case False
  with assms(1) show ?thesis
    by (simp add: io_signal_handler_def recvfrom_def)
qed

text \<open>
  C10. A 4-byte datagram that is not \<open>STOP\<close> changes nothing but the log: the state
  after the handler is the state before it with one debug entry, "Received unexpected
  message size", appended to the trace. The base timestamp and the semaphore are as before.
\<close>

theorem io_signal_handler_four_bytes_not_STOP:
  assumes "length d = 4" and "d \<noteq> STOP"
  shows "io_signal_handler SIGIO (Some d) s
         = s\<lparr>trace := trace s @ [Log DEBUG ''Received unexpected message size'']\<rparr>"
  using assms by (simp add: io_signal_handler_short log_def)

theorem io_signal_handler_four_bytes_not_STOP_witness:
  "length [0x53, 0x54, 0x4F, 0x51 :: byte] = 4
   \<and> [0x53, 0x54, 0x4F, 0x51] \<noteq> STOP
   \<and> io_signal_handler SIGIO (Some [0x53, 0x54, 0x4F, 0x51]) (startup 4 3 4 6)
     = (startup 4 3 4 6)\<lparr>trace := [Log DEBUG ''Received unexpected message size'']\<rparr>"
  using io_signal_handler_four_bytes_not_STOP [of "[0x53, 0x54, 0x4F, 0x51]" "startup 4 3 4 6"]
  by (simp add: STOP_def startup_def)

text \<open>
  C7. The handler reads into an 8-byte buffer, so of a longer datagram \<^verbatim>\<open>recvfrom\<close>
  stores and reports 8 bytes, and the handler takes them for a base timestamp: a 9-byte
  datagram sets the timestamp and posts the semaphore.
\<close>

theorem io_signal_handler_nine_bytes:
  "timestamp (io_signal_handler SIGIO (Some [1, 0, 0, 0, 0, 0, 0, 0, 0]) (startup 4 3 4 6)) = 1
   \<and> loop_ctl_sem (io_signal_handler SIGIO (Some [1, 0, 0, 0, 0, 0, 0, 0, 0]) (startup 4 3 4 6)) = 1
   \<and> trace (io_signal_handler SIGIO (Some [1, 0, 0, 0, 0, 0, 0, 0, 0]) (startup 4 3 4 6))
     = [Log INFO ''Received timestamp'', SemPost]"
  by (simp add: io_signal_handler_def recvfrom_def int64_of_bytes_def wrap64_def
      sem_post_def log_def startup_def)

subsection \<open>Signal setup\<close>

text \<open>
  C2. What \<^verbatim>\<open>init_signals\<close> installs: the capture handler for \<open>SIGUSR1\<close>, but the
  termination handler for \<open>SIGIO\<close>, and for \<open>SIGINT\<close> and \<open>SIGTERM\<close> a structure none of
  whose fields was ever assigned. The termination handler, run for \<open>SIGIO\<close>, returns at
  once; the datagram handler is installed for no signal.
\<close>

theorem init_signals_dispositions:
  "map_option sa_sigaction (init_signals SIGUSR1) = Some (Some Capture_signal_handler)
   \<and> map_option sa_sigaction (init_signals SIGIO) = Some (Some Exit_signal_handler)
   \<and> init_signals SIGINT = Some indeterminate
   \<and> init_signals SIGTERM = Some indeterminate
   \<and> sa_sigaction indeterminate = None \<and> sa_flags indeterminate = None
   \<and> run_handler Exit_signal_handler SIGIO pending ret s = Returns s
   \<and> Some Io_signal_handler \<notin> (\<lambda>signo. sa_sigaction (the (init_signals signo))) ` dom init_signals"
  by (simp add: init_signals_def indeterminate_def run_handler_def exit_signal_handler_def
      SIGUSR1_def SIGIO_def SIGINT_def SIGTERM_def Let_def)

subsection \<open>The camera source\<close>


lemma queue_request_overrun:
  assumes "frame_buffers s < loop_ctl_sem s + 2"
  shows "queue_request ret s
         = Throws ''Buffer is not ready for requeuing''
             (s\<lparr>trace := trace s @ [Log ERROR ''Buffer is not ready for requeuing'']\<rparr>)"
  using assms by (simp add: queue_request_def log_def)

lemma queue_request_submits:
  assumes "loop_ctl_sem s + 2 \<le> frame_buffers s" and "next_req_idx s < length (requests s)"
  shows "queue_request ret s
         = (if ret < 0 then
              Throws ''Failed to queue request''
                (s\<lparr>trace := trace s @ [CameraQueueRequest (cookie (requests s ! next_req_idx s)),
                                        Log ERROR ''Failed to queue request'']\<rparr>)
            else
              Returns (s\<lparr>trace := trace s @ [CameraQueueRequest (cookie (requests s ! next_req_idx s))],
                        next_req_idx := (next_req_idx s + 1) mod length (requests s)\<rparr>))"
  using assms by (simp add: queue_request_def log_def Let_def)

lemma enqueue_retry_room:
  assumes "length (items q) < capacity q"
  shows "enqueue_retry q p = Some (q\<lparr>items := items q @ [p]\<rparr>)"
  using assms by (subst enqueue_retry.simps) (simp add: enqueue_def)

lemma enqueue_retry_full:
  assumes "enqueue_retry q p = Some q'"
  shows "length (items q) < capacity q"
  using assms
proof (induction rule: enqueue_retry.raw_induct [rotated 1, consumes 1])
  case (1 enqueue_retry' q p q')
  then show ?case
    by (auto simp: enqueue_def split: if_splits)
qed

lemma request_complete_returns:
  assumes "status rq \<noteq> RequestCancelled"
    and "cookie rq < length (mmap_buffers s)"
    and "frame_bytes s \<le> length (mmap_buffers s ! cookie rq)"
    and "frame_bytes s * frame_bytes_offset s + frame_bytes s \<le> length (frame_bytes_buffer s)"
    and "frame_buffers s \<noteq> 0"
    and "length (items (frame_queue s)) < capacity (frame_queue s)"
  shows "request_complete rq s = Some (Returns (completed rq s))"
  using assms
  by (simp add: request_complete_def Let_def log_def sem_post_def enqueue_retry_room
      completed_def)









lemma startup_4_3_4_6_ready:
  "camera_ready (startup 4 3 4 6)"
  "capacity (frame_queue (startup 4 3 4 6)) = 4"
  "items (frame_queue (startup 4 3 4 6)) = []"
  by (simp_all add: startup_def camera_ready_def list_all_iff)




text \<open>
  C4. A completion that is not cancelled, for a cookie that indexes a mapped buffer
  holding a whole frame, with the write slot inside the arena. If the queue has room the
  call returns, and then: the \<open>frame_bytes\<close> bytes of the slot at the write index are the
  first \<open>frame_bytes\<close> bytes of the mapped buffer \<open>cookie\<close>, the arena is otherwise as
  before; the write index has moved on by one modulo \<open>N\<close>; the slot's address is at the
  back of the queue; the semaphore has gone up by exactly one; and the calls made are, in
  this order, the log entry, the copy, the successful enqueue, one post of the semaphore
  and the reuse of the request with its buffers. While the queue is full the retry loop
  does not end, and the call does not return.
\<close>

theorem request_complete_effect:
  assumes "status rq \<noteq> RequestCancelled"
    and "cookie rq < length (mmap_buffers s)"
    and "frame_bytes s \<le> length (mmap_buffers s ! cookie rq)"
    and "frame_bytes s * frame_bytes_offset s + frame_bytes s \<le> length (frame_bytes_buffer s)"
    and "frame_buffers s \<noteq> 0"
  shows "(length (items (frame_queue s)) < capacity (frame_queue s) \<longrightarrow>
          (\<exists>s'. request_complete rq s = Some (Returns s')
             \<and> take (frame_bytes s)
                  (drop (frame_bytes s * frame_bytes_offset s) (frame_bytes_buffer s'))
               = take (frame_bytes s) (mmap_buffers s ! cookie rq)
             \<and> take (frame_bytes s * frame_bytes_offset s) (frame_bytes_buffer s')
               = take (frame_bytes s * frame_bytes_offset s) (frame_bytes_buffer s)
             \<and> drop (frame_bytes s * frame_bytes_offset s + frame_bytes s) (frame_bytes_buffer s')
               = drop (frame_bytes s * frame_bytes_offset s + frame_bytes s) (frame_bytes_buffer s)
             \<and> frame_bytes_offset s' = (frame_bytes_offset s + 1) mod frame_buffers s
             \<and> items (frame_queue s')
               = items (frame_queue s) @ [frame_bytes s * frame_bytes_offset s]
             \<and> loop_ctl_sem s' = loop_ctl_sem s + 1
             \<and> trace s' = trace s @
                 [Log INFO ''Request completed'',
                  Memcpy (frame_bytes s * frame_bytes_offset s) (cookie rq) (frame_bytes s),
                  Enqueue (frame_bytes s * frame_bytes_offset s),
                  SemPost,
                  RequestReuse (cookie rq)]
             \<and> mmap_buffers s' = mmap_buffers s
             \<and> requests s' = requests s
             \<and> next_req_idx s' = next_req_idx s))
      \<and> (capacity (frame_queue s) \<le> length (items (frame_queue s)) \<longrightarrow>
            request_complete rq s = None)"
proof (intro conjI impI)
  let ?off = "frame_bytes s * frame_bytes_offset s"
  assume room: "length (items (frame_queue s)) < capacity (frame_queue s)"
  have r: "request_complete rq s = Some (Returns (completed rq s))"
    using assms room by (rule request_complete_returns)
  from assms(4) have off: "?off \<le> length (frame_bytes_buffer s)" by simp
  have slot: "take (frame_bytes s) (drop ?off (frame_bytes_buffer (completed rq s)))
              = take (frame_bytes s) (mmap_buffers s ! cookie rq)"
    using off assms(3) by (simp add: completed_def min_def)
  have before: "take ?off (frame_bytes_buffer (completed rq s)) = take ?off (frame_bytes_buffer s)"
    using off by (simp add: completed_def min_def)
  have after: "drop (?off + frame_bytes s) (frame_bytes_buffer (completed rq s))
               = drop (?off + frame_bytes s) (frame_bytes_buffer s)"
    using off assms(3) by (simp add: completed_def min_def)
  show "\<exists>s'. request_complete rq s = Some (Returns s')
             \<and> take (frame_bytes s)
                  (drop (frame_bytes s * frame_bytes_offset s) (frame_bytes_buffer s'))
               = take (frame_bytes s) (mmap_buffers s ! cookie rq)
             \<and> take (frame_bytes s * frame_bytes_offset s) (frame_bytes_buffer s')
               = take (frame_bytes s * frame_bytes_offset s) (frame_bytes_buffer s)
             \<and> drop (frame_bytes s * frame_bytes_offset s + frame_bytes s) (frame_bytes_buffer s')
               = drop (frame_bytes s * frame_bytes_offset s + frame_bytes s) (frame_bytes_buffer s)
             \<and> frame_bytes_offset s' = (frame_bytes_offset s + 1) mod frame_buffers s
             \<and> items (frame_queue s')
               = items (frame_queue s) @ [frame_bytes s * frame_bytes_offset s]
             \<and> loop_ctl_sem s' = loop_ctl_sem s + 1
             \<and> trace s' = trace s @
                 [Log INFO ''Request completed'',
                  Memcpy (frame_bytes s * frame_bytes_offset s) (cookie rq) (frame_bytes s),
                  Enqueue (frame_bytes s * frame_bytes_offset s),
                  SemPost,
                  RequestReuse (cookie rq)]
             \<and> mmap_buffers s' = mmap_buffers s
             \<and> requests s' = requests s
             \<and> next_req_idx s' = next_req_idx s"
  proof (intro exI conjI)
    show "request_complete rq s = Some (Returns (completed rq s))" by (rule r)
  qed (use slot before after in \<open>simp_all add: completed_def\<close>)
next
  assume full: "capacity (frame_queue s) \<le> length (items (frame_queue s))"
  have "enqueue_retry (frame_queue s) p = None" for p
  proof (cases "enqueue_retry (frame_queue s) p")
    case None
    then show ?thesis .
  next
    case (Some q')
    then have "length (items (frame_queue s)) < capacity (frame_queue s)"
      by (rule enqueue_retry_full)
    with full show ?thesis by simp
  qed
  then show "request_complete rq s = None"
    using assms by (simp add: request_complete_def Let_def log_def)
qed

lemma recording_node_vals:
  "frame_bytes recording_node = 6" "frame_bytes_offset recording_node = 1"
  "frame_buffers recording_node = 4" "loop_ctl_sem recording_node = 0"
  "trace recording_node = []"
  "mmap_buffers recording_node = [[1, 2, 3, 4, 5, 6], [7, 8, 9, 10, 11, 12],
                                        [13, 14, 15, 16, 17, 18]]"
  "frame_bytes_buffer recording_node = replicate 24 0"
  "frame_queue recording_node = frame_queue (startup 4 3 4 6)"
  by (simp_all add: recording_node_def startup_def)

theorem request_complete_effect_witness:
  "status \<lparr>cookie = 1, status = RequestComplete\<rparr> \<noteq> RequestCancelled
   \<and> cookie \<lparr>cookie = 1, status = RequestComplete\<rparr> < length (mmap_buffers recording_node)
   \<and> frame_bytes recording_node \<le> length (mmap_buffers recording_node ! 1)
   \<and> frame_bytes recording_node * frame_bytes_offset recording_node + frame_bytes recording_node
       \<le> length (frame_bytes_buffer recording_node)
   \<and> frame_buffers recording_node \<noteq> 0
   \<and> length (items (frame_queue recording_node)) < capacity (frame_queue recording_node)
   \<and> (\<exists>s'. request_complete \<lparr>cookie = 1, status = RequestComplete\<rparr> recording_node
             = Some (Returns s')
          \<and> take 6 (drop 6 (frame_bytes_buffer s')) = [7, 8, 9, 10, 11, 12]
          \<and> frame_bytes_offset s' = 2
          \<and> items (frame_queue s') = [6]
          \<and> loop_ctl_sem s' = 1
          \<and> trace s' = [Log INFO ''Request completed'', Memcpy 6 1 6, Enqueue 6, SemPost,
                         RequestReuse 1])"
proof -
  let ?rq = "\<lparr>cookie = 1, status = RequestComplete\<rparr>"
  have h1: "status ?rq \<noteq> RequestCancelled"
    and h2: "cookie ?rq < length (mmap_buffers recording_node)"
    and h3: "frame_bytes recording_node \<le> length (mmap_buffers recording_node ! cookie ?rq)"
    and h4: "frame_bytes recording_node * frame_bytes_offset recording_node
             + frame_bytes recording_node \<le> length (frame_bytes_buffer recording_node)"
    and h5: "frame_buffers recording_node \<noteq> 0"
    by (simp_all add: recording_node_vals)
  have h6: "length (items (frame_queue recording_node)) < capacity (frame_queue recording_node)"
    by (simp add: recording_node_vals startup_4_3_4_6_ready)
  from request_complete_effect [OF h1 h2 h3 h4 h5] h6
  obtain s' where s': "request_complete ?rq recording_node = Some (Returns s')"
    "take (frame_bytes recording_node)
       (drop (frame_bytes recording_node * frame_bytes_offset recording_node) (frame_bytes_buffer s'))
     = take (frame_bytes recording_node) (mmap_buffers recording_node ! cookie ?rq)"
    "frame_bytes_offset s' = (frame_bytes_offset recording_node + 1) mod frame_buffers recording_node"
    "items (frame_queue s')
     = items (frame_queue recording_node) @ [frame_bytes recording_node * frame_bytes_offset recording_node]"
    "loop_ctl_sem s' = loop_ctl_sem recording_node + 1"
    "trace s' = trace recording_node @
                 [Log INFO ''Request completed'',
                  Memcpy (frame_bytes recording_node * frame_bytes_offset recording_node) (cookie ?rq)
                    (frame_bytes recording_node),
                  Enqueue (frame_bytes recording_node * frame_bytes_offset recording_node),
                  SemPost,
                  RequestReuse (cookie ?rq)]"
    by blast
  have "take 6 (drop 6 (frame_bytes_buffer s')) = [7, 8, 9, 10, 11, 12]"
    using s'(2) by (simp add: recording_node_vals)
  moreover have "frame_bytes_offset s' = 2"
    using s'(3) by (simp add: recording_node_vals)
  moreover have "items (frame_queue s') = [6]"
    using s'(4) by (simp add: recording_node_vals startup_4_3_4_6_ready)
  moreover have "loop_ctl_sem s' = 1"
    using s'(5) by (simp add: recording_node_vals)
  moreover have "trace s' = [Log INFO ''Request completed'', Memcpy 6 1 6, Enqueue 6, SemPost,
                         RequestReuse 1]"
    using s'(6) by (simp add: recording_node_vals)
  ultimately have "\<exists>s'. request_complete ?rq recording_node = Some (Returns s')
          \<and> take 6 (drop 6 (frame_bytes_buffer s')) = [7, 8, 9, 10, 11, 12]
          \<and> frame_bytes_offset s' = 2
          \<and> items (frame_queue s') = [6]
          \<and> loop_ctl_sem s' = 1
          \<and> trace s' = [Log INFO ''Request completed'', Memcpy 6 1 6, Enqueue 6, SemPost,
                         RequestReuse 1]"
    using s'(1) by blast
  moreover have "frame_bytes recording_node \<le> length (mmap_buffers recording_node ! 1)"
    using h3 by simp
  ultimately show ?thesis
    using h1 h2 h4 h5 h6 by blast
qed

subsection \<open>The capture handler\<close>

lemma queue_request_throws_logged:
  assumes "queue_request ret s = Throws m s1"
  shows "\<exists>pre. trace s1 = trace s @ pre @ [Log ERROR m]"
  using assms
  by (auto simp: queue_request_def log_def Let_def split: if_splits)

text \<open>
  C9, as the code has it. With the running flag clear the handler returns and the state,
  the trace with it, is untouched: \<^verbatim>\<open>queue_request\<close> is not called. With the flag set the
  handler calls \<^verbatim>\<open>queue_request\<close>. If that returns, the handler logs "Capture request
  queued" and returns. If it throws (overrun, or the driver refusing the request), the
  last thing done is the error entry \<^verbatim>\<open>queue_request\<close> wrote to the log, and the exception
  leaves the handler: the handler does not return normally.
\<close>

theorem capture_signal_handler_outcomes:
  "(running s = 0 \<longrightarrow> capture_signal_handler SIGUSR1 ret s = Returns s)
   \<and> (running s \<noteq> 0 \<longrightarrow>
        (\<forall>s1. queue_request ret s = Returns s1 \<longrightarrow>
           capture_signal_handler SIGUSR1 ret s
           = Returns (s1\<lparr>trace := trace s1 @ [Log INFO ''Capture request queued'']\<rparr>))
        \<and> (\<forall>m s1. queue_request ret s = Throws m s1 \<longrightarrow>
             capture_signal_handler SIGUSR1 ret s = Throws m s1
             \<and> (\<exists>pre. trace s1 = trace s @ pre @ [Log ERROR m]))
        \<and> (frame_buffers s < loop_ctl_sem s + 2 \<longrightarrow>
             capture_signal_handler SIGUSR1 ret s
             = Throws ''Buffer is not ready for requeuing''
                 (s\<lparr>trace := trace s @ [Log ERROR ''Buffer is not ready for requeuing'']\<rparr>)))"
proof (intro conjI impI allI)
  assume "running s = 0"
  then show "capture_signal_handler SIGUSR1 ret s = Returns s"
    by (simp add: capture_signal_handler_def)
next
  fix s1
  assume "running s \<noteq> 0" and "queue_request ret s = Returns s1"
  then show "capture_signal_handler SIGUSR1 ret s
           = Returns (s1\<lparr>trace := trace s1 @ [Log INFO ''Capture request queued'']\<rparr>)"
    by (simp add: capture_signal_handler_def log_def)
next
  fix m s1
  assume "running s \<noteq> 0" and "queue_request ret s = Throws m s1"
  then show "capture_signal_handler SIGUSR1 ret s = Throws m s1"
    by (simp add: capture_signal_handler_def)
next
  fix m s1
  assume "queue_request ret s = Throws m s1"
  then show "\<exists>pre. trace s1 = trace s @ pre @ [Log ERROR m]"
    by (rule queue_request_throws_logged)
next
  assume "running s \<noteq> 0" and "frame_buffers s < loop_ctl_sem s + 2"
  then show "capture_signal_handler SIGUSR1 ret s
             = Throws ''Buffer is not ready for requeuing''
                 (s\<lparr>trace := trace s @ [Log ERROR ''Buffer is not ready for requeuing'']\<rparr>)"
    by (simp add: capture_signal_handler_def queue_request_overrun)
qed

theorem capture_signal_handler_outcomes_witness:
  "running ((startup 4 3 4 6)\<lparr>running := 0\<rparr>) = 0
   \<and> capture_signal_handler SIGUSR1 0 ((startup 4 3 4 6)\<lparr>running := 0\<rparr>)
     = Returns ((startup 4 3 4 6)\<lparr>running := 0\<rparr>)
   \<and> running (startup 4 3 4 6) \<noteq> 0
   \<and> queue_request 0 (startup 4 3 4 6)
     = Returns ((startup 4 3 4 6)\<lparr>trace := [CameraQueueRequest 0], next_req_idx := 1\<rparr>)
   \<and> capture_signal_handler SIGUSR1 0 (startup 4 3 4 6)
     = Returns ((startup 4 3 4 6)\<lparr>trace := [CameraQueueRequest 0, Log INFO ''Capture request queued''],
                                next_req_idx := 1\<rparr>)
   \<and> queue_request (- 1) (startup 4 3 4 6)
     = Throws ''Failed to queue request''
         ((startup 4 3 4 6)\<lparr>trace := [CameraQueueRequest 0, Log ERROR ''Failed to queue request'']\<rparr>)
   \<and> capture_signal_handler SIGUSR1 (- 1) (startup 4 3 4 6)
     = Throws ''Failed to queue request''
         ((startup 4 3 4 6)\<lparr>trace := [CameraQueueRequest 0, Log ERROR ''Failed to queue request'']\<rparr>)"
proof -
  have q0: "queue_request 0 (startup 4 3 4 6)
     = Returns ((startup 4 3 4 6)\<lparr>trace := [CameraQueueRequest 0], next_req_idx := 1\<rparr>)"
    by (simp add: queue_request_submits startup_def)
  have q1: "queue_request (- 1) (startup 4 3 4 6)
     = Throws ''Failed to queue request''
         ((startup 4 3 4 6)\<lparr>trace := [CameraQueueRequest 0, Log ERROR ''Failed to queue request'']\<rparr>)"
    by (simp add: queue_request_submits startup_def)
  have r0: "running ((startup 4 3 4 6)\<lparr>running := 0\<rparr>) = 0"
    and r1: "running (startup 4 3 4 6) \<noteq> 0"
    by (simp_all add: startup_def)
  have a: "capture_signal_handler SIGUSR1 0 ((startup 4 3 4 6)\<lparr>running := 0\<rparr>)
     = Returns ((startup 4 3 4 6)\<lparr>running := 0\<rparr>)"
    using capture_signal_handler_outcomes [of "(startup 4 3 4 6)\<lparr>running := 0\<rparr>" 0] r0 by blast
  have b: "capture_signal_handler SIGUSR1 0 (startup 4 3 4 6)
     = Returns ((startup 4 3 4 6)\<lparr>trace := [CameraQueueRequest 0, Log INFO ''Capture request queued''],
                                next_req_idx := 1\<rparr>)"
    using capture_signal_handler_outcomes [of "startup 4 3 4 6" 0] r1 q0 by simp
  have c: "capture_signal_handler SIGUSR1 (- 1) (startup 4 3 4 6)
     = Throws ''Failed to queue request''
         ((startup 4 3 4 6)\<lparr>trace := [CameraQueueRequest 0, Log ERROR ''Failed to queue request'']\<rparr>)"
    using capture_signal_handler_outcomes [of "startup 4 3 4 6" "- 1"] r1 q1 by simp
  show ?thesis
    using r0 r1 q0 q1 a b c by simp
qed

text \<open>
  Three frames waiting with four frame buffers: the timer fires, \<^verbatim>\<open>queue_request\<close> throws
  the overrun error, and the handler does not return.
\<close>

theorem capture_signal_handler_overrun_propagates:
  "capture_signal_handler SIGUSR1 0 ((startup 4 3 4 6)\<lparr>loop_ctl_sem := 3\<rparr>)
   = Throws ''Buffer is not ready for requeuing''
       ((startup 4 3 4 6)\<lparr>loop_ctl_sem := 3,
                         trace := [Log ERROR ''Buffer is not ready for requeuing'']\<rparr>)"
  by (simp add: capture_signal_handler_def queue_request_def log_def startup_def SIGUSR1_def)

subsection \<open>The stream sink\<close>

lemma stream_loop_done:
  "length data \<le> tot \<Longrightarrow>
   stream_loop ws r data tot c
   = Some (0, c\<lparr>stream_log := stream_log c @ [(INFO, ''Transmitted frame'')]\<rparr>)"
  by (subst stream_loop.simps) simp

lemma stream_loop_connect_fails:
  "tot < length data \<Longrightarrow> tcpfd c < 0 \<Longrightarrow> r < 0 \<Longrightarrow>
   stream_loop ws r data tot c = Some (r, c\<lparr>connects := connects c + 1\<rparr>)"
  by (subst stream_loop.simps) (simp add: conn_tcp_def)

lemma stream_loop_connects:
  "tot < length data \<Longrightarrow> tcpfd c < 0 \<Longrightarrow> 0 \<le> r \<Longrightarrow>
   stream_loop ws r data tot c
   = stream_loop ws r data tot (c\<lparr>tcpfd := r, connects := connects c + 1\<rparr>)"
  by (subst stream_loop.simps, subst (2) stream_loop.simps) (simp add: conn_tcp_def)

lemma stream_loop_EINTR:
  "tot < length data \<Longrightarrow> 0 \<le> tcpfd c \<Longrightarrow>
   stream_loop (WriteError EINTR # ws) r data tot c = stream_loop ws r data tot c"
  by (subst stream_loop.simps) simp

lemma stream_loop_error:
  "tot < length data \<Longrightarrow> 0 \<le> tcpfd c \<Longrightarrow> e \<noteq> EINTR \<Longrightarrow>
   stream_loop (WriteError e # ws) r data tot c
   = Some (- 1, c\<lparr>stream_log := stream_log c @ [(ERROR, ''Error transmitting frame'')]\<rparr>)"
  by (subst stream_loop.simps) simp

lemma stream_loop_written:
  "tot < length data \<Longrightarrow> 0 \<le> tcpfd c \<Longrightarrow>
   stream_loop (Written n # ws) r data tot c
   = stream_loop ws r data (tot + min n (length data - tot))
       (c\<lparr>sent := sent c @ take (min n (length data - tot)) (drop tot data)\<rparr>)"
  by (subst stream_loop.simps) (simp add: Let_def)

lemma stream_loop_exhausted:
  "tot < length data \<Longrightarrow> 0 \<le> tcpfd c \<Longrightarrow> stream_loop [] r data tot c = None"
  by (subst stream_loop.simps) simp


lemma stream_loop_success:
  assumes "0 \<le> tcpfd c" and "tot \<le> length data"
    and "stream_loop ws r data tot c = Some (rc, c')"
  shows "tcpfd c' = tcpfd c \<and> connects c' = connects c
         \<and> (rc = 0 \<longrightarrow> sent c' = sent c @ drop tot data)"
  using assms
proof (induction ws arbitrary: tot c)
  case Nil
  show ?case
  proof (cases "tot < length data")
    case True
    with Nil show ?thesis by (simp add: stream_loop_exhausted)
  next
    case False
    with Nil show ?thesis by (auto simp: stream_loop_done)
  qed
next
  case (Cons w ws)
  show ?case
  proof (cases "tot < length data")
    case False
    with Cons.prems show ?thesis by (auto simp: stream_loop_done)
  next
    case True
    show ?thesis
    proof (cases w)
      case (WriteError e)
      show ?thesis
      proof (cases "e = EINTR")
        case True
        with Cons.prems WriteError \<open>tot < length data\<close>
        have "stream_loop ws r data tot c = Some (rc, c')"
          by (simp add: stream_loop_EINTR)
        from Cons.IH [OF Cons.prems(1) Cons.prems(2) this] show ?thesis .
      next
        case False
        with Cons.prems WriteError \<open>tot < length data\<close> show ?thesis
          by (auto simp: stream_loop_error)
      qed
    next
      case (Written n)
      let ?k = "min n (length data - tot)"
      let ?c1 = "c\<lparr>sent := sent c @ take ?k (drop tot data)\<rparr>"
      from Cons.prems Written True
      have run: "stream_loop ws r data (tot + ?k) ?c1 = Some (rc, c')"
        by (simp add: stream_loop_written)
      have fd: "0 \<le> tcpfd ?c1" using Cons.prems(1) by simp
      have le: "tot + ?k \<le> length data" using True by simp
      from Cons.IH [OF fd le run]
      have ih: "tcpfd c' = tcpfd ?c1" "connects c' = connects ?c1"
        "rc = 0 \<longrightarrow> sent c' = sent ?c1 @ drop (tot + ?k) data"
        by simp_all
      have "take ?k (drop tot data) @ drop (tot + ?k) data = drop tot data"
        by (metis add.commute append_take_drop_id drop_drop)
      with ih show ?thesis by simp
    qed
  qed
qed

lemma stream_loop_progress:
  assumes "0 \<le> tcpfd c" and "list_all retried ws" and "tot \<le> length data"
    and "length data \<le> tot + accepted ws"
  shows "\<exists>c'. stream_loop ws r data tot c = Some (0, c') \<and> sent c' = sent c @ drop tot data"
  using assms
proof (induction ws arbitrary: tot c)
  case Nil
  then show ?case by (simp add: stream_loop_done)
next
  case (Cons w ws)
  show ?case
  proof (cases "tot < length data")
    case False
    with Cons.prems show ?thesis by (simp add: stream_loop_done)
  next
    case True
    show ?thesis
    proof (cases w)
      case (WriteError e)
      with Cons.prems(2) have e: "e = EINTR" by simp
      from Cons.prems WriteError have "list_all retried ws" "length data \<le> tot + accepted ws"
        by simp_all
      from Cons.IH [OF Cons.prems(1) this(1) Cons.prems(3) this(2)]
      show ?thesis
        using True Cons.prems(1) by (simp add: WriteError e stream_loop_EINTR)
    next
      case (Written n)
      let ?k = "min n (length data - tot)"
      let ?c1 = "c\<lparr>sent := sent c @ take ?k (drop tot data)\<rparr>"
      have fd: "0 \<le> tcpfd ?c1" using Cons.prems(1) by simp
      from Cons.prems(2) have rest: "list_all retried ws" by simp
      have le: "tot + ?k \<le> length data" using True by simp
      have enough: "length data \<le> (tot + ?k) + accepted ws"
        using Cons.prems(4) Written True by (auto simp: min_def)
      from Cons.IH [OF fd rest le enough] obtain c' where
        c': "stream_loop ws r data (tot + ?k) ?c1 = Some (0, c')"
        "sent c' = sent ?c1 @ drop (tot + ?k) data"
        by blast
      have "take ?k (drop tot data) @ drop (tot + ?k) data = drop tot data"
        by (metis add.commute append_take_drop_id drop_drop)
      with c' have "stream_loop (w # ws) r data tot c = Some (0, c')"
        "sent c' = sent c @ drop tot data"
        using True Cons.prems(1) by (simp_all add: Written stream_loop_written)
      then show ?thesis by blast
    qed
  qed
qed

lemma stream_loop_fails:
  assumes "0 \<le> tcpfd c" and "list_all retried ws1" and "tot + accepted ws1 < length data"
    and "e \<noteq> EINTR"
  shows "\<exists>c'. stream_loop (ws1 @ WriteError e # ws2) r data tot c = Some (- 1, c')
           \<and> sent c' = sent c @ take (accepted ws1) (drop tot data)"
  using assms
proof (induction ws1 arbitrary: tot c)
  case Nil
  then show ?case by (simp add: stream_loop_error)
next
  case (Cons w ws)
  from Cons.prems(3) have lt: "tot < length data" by simp
  show ?case
  proof (cases w)
    case (WriteError e')
    with Cons.prems(2) have e': "e' = EINTR" by simp
    from Cons.prems WriteError have "list_all retried ws" "tot + accepted ws < length data"
      by simp_all
    from Cons.IH [OF Cons.prems(1) this Cons.prems(4)]
    show ?thesis
      using lt Cons.prems(1) by (simp add: WriteError e' stream_loop_EINTR)
  next
    case (Written n)
    from Cons.prems(3) Written have n: "n < length data - tot" by simp
    then have k: "min n (length data - tot) = n" by simp
    let ?c1 = "c\<lparr>sent := sent c @ take n (drop tot data)\<rparr>"
    have fd: "0 \<le> tcpfd ?c1" using Cons.prems(1) by simp
    from Cons.prems(2) have rest: "list_all retried ws" by simp
    from Cons.prems(3) Written have less: "(tot + n) + accepted ws < length data" by simp
    from Cons.IH [OF fd rest less Cons.prems(4)] obtain c' where
      c': "stream_loop (ws @ WriteError e # ws2) r data (tot + n) ?c1 = Some (- 1, c')"
      "sent c' = sent ?c1 @ take (accepted ws) (drop (tot + n) data)"
      by blast
    have "take n (drop tot data) @ take (accepted ws) (drop (tot + n) data)
          = take (n + accepted ws) (drop tot data)"
      by (simp add: take_add add.commute)
    with c' have "stream_loop ((w # ws) @ WriteError e # ws2) r data tot c = Some (- 1, c')"
      "sent c' = sent c @ take (accepted (w # ws)) (drop tot data)"
      using lt Cons.prems(1) by (simp_all add: Written stream_loop_written k)
    then show ?thesis by blast
  qed
qed

text \<open>
  C8. For a packet \<open>data\<close> handed to \<^verbatim>\<open>stream_pkt\<close>:
  \<^item> it returns 0 only when the socket has accepted exactly the bytes of the packet, in
    order, after what it had accepted before;
  \<^item> with bytes to write and the socket not connected it connects first: if that
    fails, the error code is returned and nothing is written; if it succeeds, the call goes
    on as it would on the connected socket;
  \<^item> on a connected socket it does not connect again;
  \<^item> writes that are interrupted (\<open>EINTR\<close>) or take only part of what is left are followed
    by another write: if the answers, whatever their order, are interruptions and writes
    that take at least \<open>size\<close> bytes in all, the call returns 0;
  \<^item> the first write that fails with another error, while bytes are still left, ends the
    call with -1.
\<close>

theorem stream_pkt_writes_whole_packet:
  "(stream_pkt ws r data c = Some (0, c') \<longrightarrow> sent c' = sent c @ data)
   \<and> (tcpfd c < 0 \<and> data \<noteq> [] \<and> r < 0 \<longrightarrow>
        stream_pkt ws r data c = Some (r, c\<lparr>connects := connects c + 1\<rparr>))
   \<and> (tcpfd c < 0 \<and> data \<noteq> [] \<and> 0 \<le> r \<longrightarrow>
        stream_pkt ws r data c
        = stream_pkt ws r data (c\<lparr>tcpfd := r, connects := connects c + 1\<rparr>))
   \<and> (0 \<le> tcpfd c \<and> stream_pkt ws r data c = Some (rc, c') \<longrightarrow>
        tcpfd c' = tcpfd c \<and> connects c' = connects c)
   \<and> (0 \<le> tcpfd c \<and> list_all retried ws \<and> length data \<le> accepted ws \<longrightarrow>
        (\<exists>c1. stream_pkt ws r data c = Some (0, c1) \<and> sent c1 = sent c @ data))
   \<and> (0 \<le> tcpfd c \<and> list_all retried ws1 \<and> accepted ws1 < length data \<and> e \<noteq> EINTR \<longrightarrow>
        (\<exists>c1. stream_pkt (ws1 @ WriteError e # ws2) r data c = Some (- 1, c1)
           \<and> sent c1 = sent c @ take (accepted ws1) data))"
proof (intro conjI impI)
  assume ok: "stream_pkt ws r data c = Some (0, c')"
  show "sent c' = sent c @ data"
  proof (cases "tcpfd c < 0 \<and> data \<noteq> []")
    case False
    show ?thesis
    proof (cases "data = []")
      case True
      with ok show ?thesis by (auto simp: stream_pkt_def stream_loop_done)
    next
      case False
      with \<open>\<not> (tcpfd c < 0 \<and> data \<noteq> [])\<close> have "0 \<le> tcpfd c" by simp
      from stream_loop_success [OF this _ ok [unfolded stream_pkt_def]] show ?thesis by simp
    qed
  next
    case True
    show ?thesis
    proof (cases "r < 0")
      case True
      with \<open>tcpfd c < 0 \<and> data \<noteq> []\<close> ok show ?thesis
        by (simp add: stream_pkt_def stream_loop_connect_fails)
    next
      case False
      let ?c1 = "c\<lparr>tcpfd := r, connects := connects c + 1\<rparr>"
      from False True ok have run: "stream_loop ws r data 0 ?c1 = Some (0, c')"
        by (simp add: stream_pkt_def stream_loop_connects)
      from False have "0 \<le> tcpfd ?c1" by simp
      from stream_loop_success [OF this _ run] show ?thesis by simp
    qed
  qed
next
  assume "tcpfd c < 0 \<and> data \<noteq> [] \<and> r < 0"
  then show "stream_pkt ws r data c = Some (r, c\<lparr>connects := connects c + 1\<rparr>)"
    by (simp add: stream_pkt_def stream_loop_connect_fails)
next
  assume "tcpfd c < 0 \<and> data \<noteq> [] \<and> 0 \<le> r"
  then show "stream_pkt ws r data c
        = stream_pkt ws r data (c\<lparr>tcpfd := r, connects := connects c + 1\<rparr>)"
    by (simp add: stream_pkt_def stream_loop_connects)
next
  assume a: "0 \<le> tcpfd c \<and> stream_pkt ws r data c = Some (rc, c')"
  then have "0 \<le> tcpfd c" and run: "stream_loop ws r data 0 c = Some (rc, c')"
    by (simp_all add: stream_pkt_def)
  from stream_loop_success [OF this(1) _ run] show "tcpfd c' = tcpfd c" "connects c' = connects c"
    by simp_all
next
  assume "0 \<le> tcpfd c \<and> list_all retried ws \<and> length data \<le> accepted ws"
  then show "\<exists>c1. stream_pkt ws r data c = Some (0, c1) \<and> sent c1 = sent c @ data"
    using stream_loop_progress [of c ws 0 data r] by (simp add: stream_pkt_def)
next
  assume "0 \<le> tcpfd c \<and> list_all retried ws1 \<and> accepted ws1 < length data \<and> e \<noteq> EINTR"
  then show "\<exists>c1. stream_pkt (ws1 @ WriteError e # ws2) r data c = Some (- 1, c1)
           \<and> sent c1 = sent c @ take (accepted ws1) data"
    using stream_loop_fails [of c ws1 0 data e ws2 r] by (simp add: stream_pkt_def)
qed

text \<open>
  A five-byte packet on a socket not yet connected: the connection is made (descriptor 7),
  the first write takes two bytes, the second is interrupted, the third takes the rest.
\<close>

theorem stream_pkt_writes_whole_packet_witness:
  "tcpfd \<lparr>tcpfd = - 1, sent = [], connects = 0, stream_log = []\<rparr> < 0
   \<and> [1, 2, 3, 4, 5 :: byte] \<noteq> []
   \<and> (0 :: int) \<le> 7
   \<and> list_all retried [Written 2, WriteError EINTR, Written 10]
   \<and> length [1, 2, 3, 4, 5 :: byte] \<le> accepted [Written 2, WriteError EINTR, Written 10]
   \<and> (\<exists>c1. stream_pkt [Written 2, WriteError EINTR, Written 10] 7 [1, 2, 3, 4, 5]
              \<lparr>tcpfd = - 1, sent = [], connects = 0, stream_log = []\<rparr> = Some (0, c1)
          \<and> sent c1 = [1, 2, 3, 4, 5] \<and> tcpfd c1 = 7 \<and> connects c1 = 1)"
proof -
  let ?c = "\<lparr>tcpfd = - 1, sent = [], connects = 0, stream_log = []\<rparr>"
  let ?c7 = "?c\<lparr>tcpfd := 7, connects := connects ?c + 1\<rparr>"
  let ?ws = "[Written 2, WriteError EINTR, Written 10]"
  let ?data = "[1, 2, 3, 4, 5 :: byte]"
  have h: "tcpfd ?c < 0" "?data \<noteq> []" "(0 :: int) \<le> 7" "list_all retried ?ws"
    "length ?data \<le> accepted ?ws" "0 \<le> tcpfd ?c7"
    by simp_all
  from stream_pkt_writes_whole_packet [where ws = ?ws and r = 7 and data = ?data and c = ?c] h
  have lazy: "stream_pkt ?ws 7 ?data ?c = stream_pkt ?ws 7 ?data ?c7"
    by blast
  from stream_pkt_writes_whole_packet [where ws = ?ws and r = 7 and data = ?data and c = ?c7] h
  obtain c1 where c1: "stream_pkt ?ws 7 ?data ?c7 = Some (0, c1)" "sent c1 = sent ?c7 @ ?data"
    by blast
  from stream_pkt_writes_whole_packet [where ws = ?ws and r = 7 and data = ?data and c = ?c7
      and rc = 0 and c' = c1] h c1(1)
  have "tcpfd c1 = tcpfd ?c7" "connects c1 = connects ?c7"
    by blast+
  with c1 lazy have "\<exists>c1. stream_pkt ?ws 7 ?data ?c = Some (0, c1)
          \<and> sent c1 = [1, 2, 3, 4, 5] \<and> tcpfd c1 = 7 \<and> connects c1 = 1"
    by simp
  with h show ?thesis by blast
qed

subsection \<open>The timer and the main loop\<close>

lemma arms_append: "arms (xs @ ys) = arms xs @ arms ys"
  by (induction xs rule: arms.induct) simp_all



lemma io_signal_handler_None:
  "io_signal_handler SIGIO None s = log DEBUG ''Received unexpected message size'' s"
  by (simp add: io_signal_handler_def recvfrom_def)

lemma io_signal_handler_STOP:
  "io_signal_handler SIGIO (Some STOP) s
   = s\<lparr>trace := trace s @ [Log INFO ''Received STOP signal, shutting down...''], timestamp := 0\<rparr>"
proof -
  have "length STOP = 4" by (simp add: STOP_def)
  then have "strncmp STOP STOP 4 = 0" by (simp add: strncmp_STOP)
  then show ?thesis
    by (simp add: io_signal_handler_def recvfrom_def log_def STOP_def)
qed


lemma arm_timer_idle: "timestamp s = 0 \<Longrightarrow> arm_timer s = s"
  by (simp add: arm_timer_def)

lemma loop_top_idle: "timestamp s = 0 \<Longrightarrow> loop_top fd s = s"
  by (simp add: loop_top_def arm_timer_def)


lemma loop_bottom_keeps:
  assumes "loop_bottom s = Some s1"
  shows "timestamp s1 = timestamp s" and "arms (trace s1) = arms (trace s)"
    and "running s1 = running s"
  using assms
  by (auto simp: loop_bottom_def sem_wait_def dequeue_def arms_append
      split: if_splits list.splits)

lemma exit_signal_handler_keeps:
  "timestamp (exit_signal_handler signo s) = timestamp s"
  "arms (trace (exit_signal_handler signo s)) = arms (trace s)"
  by (simp_all add: exit_signal_handler_def sem_post_def arms_append)

lemma queue_request_keeps:
  assumes "outcome_node (queue_request ret s) = Some s1"
  shows "timestamp s1 = timestamp s \<and> arms (trace s1) = arms (trace s)"
  using assms
  by (auto simp: queue_request_def log_def Let_def arms_append split: if_splits)

lemma capture_signal_handler_keeps:
  assumes "outcome_node (capture_signal_handler signo ret s) = Some s1"
  shows "timestamp s1 = timestamp s \<and> arms (trace s1) = arms (trace s)"
proof (cases "signo \<noteq> SIGUSR1 \<or> running s = 0")
  case True
  with assms show ?thesis by (auto simp: capture_signal_handler_def)
next
  case False
  show ?thesis
  proof (cases "queue_request ret s")
    case (Returns s2)
    with queue_request_keeps [of ret s s2]
    have "timestamp s2 = timestamp s \<and> arms (trace s2) = arms (trace s)" by simp
    with assms False Returns show ?thesis
      by (auto simp: capture_signal_handler_def log_def arms_append)
  next
    case (Throws m s2)
    with queue_request_keeps [of ret s s2]
    have "timestamp s2 = timestamp s \<and> arms (trace s2) = arms (trace s)" by simp
    with assms False Throws show ?thesis
      by (auto simp: capture_signal_handler_def)
  next
    case Undefined
    with assms False show ?thesis
      by (auto simp: capture_signal_handler_def)
  qed
qed

lemma request_complete_keeps:
  assumes "request_complete rq s = Some r" and "outcome_node r = Some s1"
  shows "timestamp s1 = timestamp s \<and> arms (trace s1) = arms (trace s)"
  using assms
  by (auto simp: request_complete_def log_def sem_post_def Let_def arms_append
      split: if_splits option.splits)


lemma step_signal_keeps:
  assumes "step fd e s = Some r" and "progress_node r = Some s'"
    and "e = TimerSignal ret \<or> e = ExitSignal signo \<or> e = RequestCompleted rq"
  shows "timestamp s' = timestamp s \<and> arms (trace s') = arms (trace s)"
proof -
  from assms(3) consider (timer) "e = TimerSignal ret" | (exit) "e = ExitSignal signo"
    | (completion) "e = RequestCompleted rq"
    by blast
  then show ?thesis
  proof cases
    case timer
    with assms(1,2) have "outcome_node (capture_signal_handler SIGUSR1 ret s) = Some s'"
      by (auto simp: step_def split: outcome.splits)
    then show ?thesis by (rule capture_signal_handler_keeps)
  next
    case exit
    with assms(1,2) show ?thesis
      by (auto simp: step_def exit_signal_handler_keeps)
  next
    case completion
    with assms(1,2) obtain r' where "request_complete rq s = Some r'" "outcome_node r' = Some s'"
      by (auto simp: step_def split: option.splits outcome.splits)
    then show ?thesis by (rule request_complete_keeps)
  qed
qed

lemma step_io_quiet_keeps:
  assumes "no_start_or_stop (IoSignal d)"
  shows "step fd (IoSignal d) s = Some (Blocked (log DEBUG ''Received unexpected message size'' s))"
proof (cases d)
  case None
  then show ?thesis by (simp add: step_def io_signal_handler_None)
next
  case (Some bytes)
  with assms show ?thesis by (simp add: step_def io_signal_handler_short)
qed

lemma step_Wake_cases:
  assumes "step fd Wake s = Some r" and "progress_node r = Some s'"
  shows "s' = s \<or> (\<exists>s1. loop_bottom s = Some s1
                      \<and> (s' = s1 \<and> running s1 = 0 \<or> s' = loop_top fd s1 \<and> running s1 \<noteq> 0))"
  using assms by (auto simp: step_def split: option.splits if_splits)

text \<open>While the timestamp is 0, no event but a start datagram sets it or arms the timer.\<close>

lemma step_stopped:
  assumes "timestamp s = 0" and "no_start e"
    and "step fd e s = Some r" and "progress_node r = Some s'"
  shows "timestamp s' = 0 \<and> arms (trace s') = arms (trace s)"
proof (cases e)
  case (IoSignal d)
  show ?thesis
  proof (cases "d = Some STOP")
    case True
    with assms IoSignal show ?thesis
      by (auto simp: step_def io_signal_handler_STOP arms_append)
  next
    case False
    with assms(2) IoSignal have "no_start_or_stop (IoSignal d)"
      by (cases d) simp_all
    from step_io_quiet_keeps [OF this, of fd s] assms IoSignal show ?thesis
      by (auto simp: log_def arms_append)
  qed
next
  case (TimerSignal ret)
  with step_signal_keeps [OF assms(3,4), of ret] assms(1) show ?thesis by simp
next
  case (ExitSignal signo)
  with step_signal_keeps [OF assms(3,4), of _ signo] assms(1) show ?thesis by simp
next
  case (RequestCompleted rq)
  with step_signal_keeps [OF assms(3,4), of _ _ rq] assms(1) show ?thesis by simp
next
  case Wake
  with step_Wake_cases [of fd s r s'] assms(3,4)
  consider "s' = s" | s1 where "loop_bottom s = Some s1" "s' = s1 \<or> s' = loop_top fd s1"
    by blast
  then show ?thesis
  proof cases
    case 1
    with assms(1) show ?thesis by simp
  next
    case 2
    from loop_bottom_keeps [OF 2(1)] assms(1)
    have "timestamp s1 = 0" "arms (trace s1) = arms (trace s)" by simp_all
    with 2(2) show ?thesis by (auto simp: loop_top_idle)
  qed
qed

lemma run_stopped:
  assumes "timestamp s = 0" and "list_all no_start evs"
    and "run fd evs s = Some r" and "progress_node r = Some s'"
  shows "timestamp s' = 0 \<and> arms (trace s') = arms (trace s)"
  using assms
proof (induction evs arbitrary: s)
  case Nil
  then show ?case by auto
next
  case (Cons e evs)
  from Cons.prems(3) obtain r1 where r1: "step fd e s = Some r1"
    by (cases "step fd e s") simp_all
  show ?case
  proof (cases r1)
    case (Blocked s1)
    from Cons.prems(2) have e: "no_start e" and rest: "list_all no_start evs" by simp_all
    from step_stopped [OF Cons.prems(1) e r1] Blocked
    have s1: "timestamp s1 = 0" "arms (trace s1) = arms (trace s)" by simp_all
    from Cons.prems(3) r1 Blocked have "run fd evs s1 = Some r" by simp
    from Cons.IH [OF s1(1) rest this Cons.prems(4)] s1(2) show ?thesis by simp
  next
    case (Exited s1)
    with Cons.prems(3) r1 have "r = r1" by simp
    with step_stopped [OF Cons.prems(1) _ r1 Cons.prems(4) [unfolded \<open>r = r1\<close>]] Cons.prems(2)
    show ?thesis by simp
  next
    case (Aborted m s1)
    with Cons.prems(3) r1 have "r = r1" by simp
    with step_stopped [OF Cons.prems(1) _ r1 Cons.prems(4) [unfolded \<open>r = r1\<close>]] Cons.prems(2)
    show ?thesis by simp
  next
    case Broken
    with Cons.prems(3,4) r1 show ?thesis by simp
  qed
qed

lemma step_Wake_frame:
  assumes "timestamp s = 0" and "running s \<noteq> 0" and "items (frame_queue s) = p # ps"
    and "loop_ctl_sem s \<noteq> 0"
  shows "step fd Wake s
         = Some (Blocked (s\<lparr>loop_ctl_sem := loop_ctl_sem s - 1,
                              frame_queue := (frame_queue s)\<lparr>items := ps\<rparr>,
                              trace := trace s @ [EncodeFrame p]\<rparr>))"
  using assms by (simp add: step_def loop_bottom_def sem_wait_def dequeue_def loop_top_idle)

lemma run_drains:
  assumes "timestamp s = 0" and "running s \<noteq> 0" and "items (frame_queue s) = ps"
    and "length ps \<le> loop_ctl_sem s"
  shows "\<exists>s2. run fd (replicate (length ps) Wake) s = Some (Blocked s2)
           \<and> trace s2 = trace s @ map EncodeFrame ps
           \<and> items (frame_queue s2) = []
           \<and> loop_ctl_sem s2 = loop_ctl_sem s - length ps"
  using assms
proof (induction ps arbitrary: s)
  case Nil
  then show ?case by simp
next
  case (Cons p ps)
  let ?s1 = "s\<lparr>loop_ctl_sem := loop_ctl_sem s - 1,
               frame_queue := (frame_queue s)\<lparr>items := ps\<rparr>,
               trace := trace s @ [EncodeFrame p]\<rparr>"
  from Cons.prems(4) have pos: "loop_ctl_sem s \<noteq> 0" by auto
  have st: "step fd Wake s = Some (Blocked ?s1)"
    using Cons.prems(1,2,3) pos by (rule step_Wake_frame)
  have "timestamp ?s1 = 0" "running ?s1 \<noteq> 0" "items (frame_queue ?s1) = ps"
    "length ps \<le> loop_ctl_sem ?s1"
    using Cons.prems by simp_all
  from Cons.IH [OF this] obtain s2 where s2:
    "run fd (replicate (length ps) Wake) ?s1 = Some (Blocked s2)"
    "trace s2 = trace ?s1 @ map EncodeFrame ps"
    "items (frame_queue s2) = []"
    "loop_ctl_sem s2 = loop_ctl_sem ?s1 - length ps"
    by blast
  have "run fd (replicate (length (p # ps)) Wake) s = Some (Blocked s2)"
    using st s2(1) by simp
  with s2 show ?case by simp
qed

text \<open>
  What the \<open>STOP\<close> datagram does, as long as no datagram of 8 bytes or more follows. It
  sets the base timestamp to 0 and does not post the semaphore: the state after the handler
  is the state before it with the timestamp 0 and one log entry. \<^verbatim>\<open>arm_timer\<close> changes
  nothing in any state whose timestamp is 0. From the state \<open>STOP\<close> leaves, whatever happens
  next (timer signals, completions, termination signals, passes of the main loop,
  datagrams shorter than 8 bytes), the timestamp stays 0 and no \<^verbatim>\<open>timer_settime\<close> is added
  to those made before. And the frames that were in the queue, when the semaphore counts
  them, are taken out one per pass of the main loop and given to the encoder in queue
  order.
\<close>

theorem stop_datagram_halts_timer:
  assumes "list_all no_start evs"
  shows "io_signal_handler SIGIO (Some STOP) s
         = s\<lparr>trace := trace s @ [Log INFO ''Received STOP signal, shutting down...''],
             timestamp := 0\<rparr>
    \<and> loop_ctl_sem (io_signal_handler SIGIO (Some STOP) s) = loop_ctl_sem s
    \<and> (\<forall>s0. timestamp s0 = 0 \<longrightarrow> arm_timer s0 = s0)
    \<and> (\<forall>r s'. run fd evs (io_signal_handler SIGIO (Some STOP) s) = Some r
               \<and> progress_node r = Some s' \<longrightarrow>
          timestamp s' = 0 \<and> arms (trace s') = arms (trace s))
    \<and> (running s \<noteq> 0 \<and> length (items (frame_queue s)) \<le> loop_ctl_sem s \<longrightarrow>
          (\<exists>s2. run fd (replicate (length (items (frame_queue s))) Wake)
                    (io_signal_handler SIGIO (Some STOP) s) = Some (Blocked s2)
             \<and> trace s2 = trace s @ [Log INFO ''Received STOP signal, shutting down...'']
                             @ map EncodeFrame (items (frame_queue s))
             \<and> items (frame_queue s2) = []))"
proof (intro conjI allI impI)
  let ?s1 = "io_signal_handler SIGIO (Some STOP) s"
  show stop: "?s1 = s\<lparr>trace := trace s @ [Log INFO ''Received STOP signal, shutting down...''],
                      timestamp := 0\<rparr>"
    by (rule io_signal_handler_STOP)
  then show "loop_ctl_sem ?s1 = loop_ctl_sem s" by simp
  from stop have ts: "timestamp ?s1 = 0" and ar: "arms (trace ?s1) = arms (trace s)"
    by (simp_all add: arms_append)
  {
    fix s0 :: node assume "timestamp s0 = 0"
    then show "arm_timer s0 = s0" by (rule arm_timer_idle)
  }
  {
    fix r and s' :: node
    assume "run fd evs ?s1 = Some r \<and> progress_node r = Some s'"
    then have "timestamp s' = 0 \<and> arms (trace s') = arms (trace ?s1)"
      using run_stopped [OF ts assms] by blast
    with ar show "timestamp s' = 0" "arms (trace s') = arms (trace s)" by simp_all
  }
  {
    assume a: "running s \<noteq> 0 \<and> length (items (frame_queue s)) \<le> loop_ctl_sem s"
    with stop have "running ?s1 \<noteq> 0" "items (frame_queue ?s1) = items (frame_queue s)"
      "length (items (frame_queue s)) \<le> loop_ctl_sem ?s1"
      by simp_all
    from run_drains [OF ts this, of fd] stop
    show "\<exists>s2. run fd (replicate (length (items (frame_queue s))) Wake) ?s1 = Some (Blocked s2)
             \<and> trace s2 = trace s @ [Log INFO ''Received STOP signal, shutting down...'']
                             @ map EncodeFrame (items (frame_queue s))
             \<and> items (frame_queue s2) = []"
      by auto
  }
qed

theorem stop_datagram_halts_timer_witness:
  "list_all no_start [Wake, Wake]
   \<and> running stopping_node \<noteq> 0
   \<and> length (items (frame_queue stopping_node)) \<le> loop_ctl_sem stopping_node
   \<and> timestamp stopping_node = 1000000000
   \<and> timestamp (io_signal_handler SIGIO (Some STOP) stopping_node) = 0
   \<and> loop_ctl_sem (io_signal_handler SIGIO (Some STOP) stopping_node) = 2
   \<and> (\<exists>s2. run 33333333 [Wake, Wake] (io_signal_handler SIGIO (Some STOP) stopping_node)
             = Some (Blocked s2)
          \<and> trace s2 = [TimerSettime 0 1 0, Log INFO ''Received STOP signal, shutting down...'',
                         EncodeFrame 0, EncodeFrame 6]
          \<and> items (frame_queue s2) = []
          \<and> timestamp s2 = 0
          \<and> arms (trace s2) = [1000000000])"
proof -
  let ?s1 = "io_signal_handler SIGIO (Some STOP) stopping_node"
  have vals: "running stopping_node \<noteq> 0" "timestamp stopping_node = 1000000000"
    "items (frame_queue stopping_node) = [0, 6]" "loop_ctl_sem stopping_node = 2"
    "trace stopping_node = [TimerSettime 0 1 0]"
    by (simp_all add: stopping_node_def recording_node_def startup_def)
  have h2: "list_all no_start [Wake, Wake]"
    by simp
  have rep: "replicate (length (items (frame_queue stopping_node))) Wake = [Wake, Wake]"
    by (simp add: vals numeral_2_eq_2)
  note stop = stop_datagram_halts_timer [OF h2, of stopping_node 33333333]
  from stop have a: "timestamp ?s1 = 0" "loop_ctl_sem ?s1 = 2"
    by (simp_all add: vals)
  from stop vals obtain s2 where s2:
    "run 33333333 [Wake, Wake] ?s1 = Some (Blocked s2)"
    "trace s2 = trace stopping_node @ [Log INFO ''Received STOP signal, shutting down...'']
                @ map EncodeFrame (items (frame_queue stopping_node))"
    "items (frame_queue s2) = []"
    unfolding rep by auto
  from stop s2(1) have "timestamp s2 = 0" "arms (trace s2) = arms (trace stopping_node)"
    by auto
  with s2 have "run 33333333 [Wake, Wake] ?s1 = Some (Blocked s2)
          \<and> trace s2 = [TimerSettime 0 1 0, Log INFO ''Received STOP signal, shutting down...'',
                         EncodeFrame 0, EncodeFrame 6]
          \<and> items (frame_queue s2) = []
          \<and> timestamp s2 = 0
          \<and> arms (trace s2) = [1000000000]"
    by (simp add: vals ns_per_s_def)
  then have "\<exists>s2. run 33333333 [Wake, Wake] ?s1 = Some (Blocked s2)
          \<and> trace s2 = [TimerSettime 0 1 0, Log INFO ''Received STOP signal, shutting down...'',
                         EncodeFrame 0, EncodeFrame 6]
          \<and> items (frame_queue s2) = []
          \<and> timestamp s2 = 0
          \<and> arms (trace s2) = [1000000000]"
    by (rule exI)
  with h2 vals a show ?thesis by simp
qed

lemma io_signal_handler_long:
  "8 \<le> length d \<Longrightarrow>
   io_signal_handler SIGIO (Some d) s
   = s\<lparr>timestamp := int64_of_bytes (take 8 d),
       trace := trace s @ [Log INFO ''Received timestamp'', SemPost],
       loop_ctl_sem := loop_ctl_sem s + 1\<rparr>"
  by (simp add: io_signal_handler_def recvfrom_def log_def sem_post_def min_def)

text \<open>
  C5. A recording is under way (base timestamp one second, the timer armed for it, two
  frames waiting). The \<open>STOP\<close> datagram arrives and sets the timestamp to 0. Then a
  datagram of 9 bytes arrives, which is not a start datagram: \<^verbatim>\<open>recvfrom\<close> stores and
  reports its first 8 bytes, the handler takes them for a base timestamp (here 1) and posts
  the semaphore, and the next pass of the main loop arms the timer again, for
  1 + 33333333 ns.
\<close>

theorem stop_then_long_datagram_rearms:
  "arms (trace stopping_node) = [1000000000]
   \<and> timestamp (io_signal_handler SIGIO (Some STOP) stopping_node) = 0
   \<and> run_arms (frame_duration 30) [IoSignal (Some STOP)] stopping_node = Some [1000000000]
   \<and> run_arms (frame_duration 30)
       [IoSignal (Some STOP), IoSignal (Some [1, 0, 0, 0, 0, 0, 0, 0, 0]), Wake] stopping_node
     = Some [1000000000, 33333334]"
proof -
  have nine: "io_signal_handler SIGIO (Some [1, 0, 0, 0, 0, 0, 0, 0, 0]) s
     = s\<lparr>timestamp := 1,
         trace := trace s @ [Log INFO ''Received timestamp'', SemPost],
         loop_ctl_sem := loop_ctl_sem s + 1\<rparr>" for s
    by (simp add: io_signal_handler_long int64_of_bytes_def wrap64_def)
  have fd: "frame_duration 30 = 33333333"
    by (simp add: frame_duration_def c_div_def ns_per_s_def)
  show ?thesis
    by (simp add: run_arms_def step_def io_signal_handler_STOP nine fd
        loop_bottom_def sem_wait_def dequeue_def loop_top_def arm_timer_def
        wrap64_def c_div_def c_mod_def ns_per_s_def
        stopping_node_def recording_node_def startup_def)
qed












end
